theory Spec2Isabelle
  imports Main "HOL-Library.Word" "HOL-Library.Multiset"
begin

unbundle bit_operations_syntax

section \<open>Go values used by both source files\<close>

text \<open>
  A \<^verbatim>\<open>syscall.Errno\<close> is an unsigned machine word; 0 means that the system call
  succeeded. The error numbers the code compares with carry their Linux values; the
  general proofs below use nothing of them but that they are not 0.
\<close>

type_synonym errno = nat

definition EWOULDBLOCK :: errno where
  "EWOULDBLOCK = 11"

definition ENOSYS :: errno where
  "ENOSYS = 38"

definition EINVAL :: errno where
  "EINVAL = 22"

text \<open>
  A Go \<^verbatim>\<open>error\<close> is \<^verbatim>\<open>nil\<close> (\<open>None\<close>) or one of: an error number of the operating
  system, the distinguished \<^verbatim>\<open>ErrTimeout\<close>, or the value built by
  \<^verbatim>\<open>fmt.Errorf(format, err)\<close>.
\<close>

datatype error = Errno errno | ErrTimeout | Errorf string error

text \<open>The run-time panics of the modelled code.\<close>

datatype panic =
    BadLen nat nat nat  \<comment> \<open>\<^verbatim>\<open>mergepgids bad len %d < %d + %d\<close>\<close>
  | IndexOutOfRange nat nat  \<comment> \<open>index, length\<close>

text \<open>
  A slice is its header: the address of the first element, the length and the capacity
  (in elements). A \<^verbatim>\<open>nil\<close> slice is \<open>None\<close> where the code tests for it.
\<close>

record slice =
  Data :: nat
  Len :: nat
  Cap :: nat

section \<open>page.go\<close>

subsection \<open>Pages and page elements\<close>

text \<open>
  The sizes are \<^verbatim>\<open>unsafe.Sizeof\<close> of the three structs: 8 + 2 + 2 + 4 bytes for the page
  header, 4 + 4 + 8 for a branch element, 4 + 4 + 4 + 4 for a leaf element.
\<close>

type_synonym pgid = "64 word"

type_synonym go_int = "64 word"

definition pageHeaderSize :: nat where "pageHeaderSize = 16"
definition branchPageElementSize :: nat where "branchPageElementSize = 16"
definition leafPageElementSize :: nat where "leafPageElementSize = 16"

definition branchPageFlag :: "16 word" where "branchPageFlag = 0x01"
definition leafPageFlag :: "16 word" where "leafPageFlag = 0x02"
definition metaPageFlag :: "16 word" where "metaPageFlag = 0x04"
definition freelistPageFlag :: "16 word" where "freelistPageFlag = 0x10"

text \<open>
  The structs \<^verbatim>\<open>page\<close> and \<^verbatim>\<open>leafPageElement\<close>. Both have a field \<^verbatim>\<open>flags\<close>, and
  \<^verbatim>\<open>id\<close> and \<^verbatim>\<open>count\<close> are constants of the library, so every field carries the name of
  its struct.
\<close>

record page =
  page_id :: pgid
  page_flags :: "16 word"
  page_count :: "16 word"
  page_overflow :: "32 word"

record leafPageElement =
  leaf_flags :: "32 word"
  leaf_pos :: "32 word"
  leaf_ksize :: "32 word"
  leaf_vsize :: "32 word"

subsection \<open>typ\<close>

text \<open>
  \<^verbatim>\<open>fmt.Sprintf("unknown<%02x>", p.flags)\<close>: the number in lower-case hexadecimal, padded
  with zeros on the left to two digits at least.
\<close>

definition hex_digit :: "nat \<Rightarrow> char" where
  "hex_digit d = ''0123456789abcdef'' ! d"

function hex :: "nat \<Rightarrow> string" where
  "hex n = (if n < 16 then [hex_digit n] else hex (n div 16) @ [hex_digit (n mod 16)])"
  by pat_completeness auto
termination
  by (relation "measure id") auto

declare hex.simps [simp del]

definition fmt_02x :: "nat \<Rightarrow> string" where
  "fmt_02x n = (let s = hex n in replicate (2 - length s) CHR ''0'' @ s)"

text \<open>\<^verbatim>\<open>typ\<close> is a command of Isabelle; the method is called \<open>page_typ\<close> here.\<close>

definition page_typ :: "page \<Rightarrow> string" where
  "page_typ p =
     (if page_flags p AND branchPageFlag \<noteq> 0 then ''branch''
      else if page_flags p AND leafPageFlag \<noteq> 0 then ''leaf''
      else if page_flags p AND metaPageFlag \<noteq> 0 then ''meta''
      else if page_flags p AND freelistPageFlag \<noteq> 0 then ''freelist''
      else ''unknown<'' @ fmt_02x (unat (page_flags p)) @ ''>'')"

text \<open>Reading a hexadecimal numeral back, to say that a string holds a number.\<close>

definition hex_value :: "char \<Rightarrow> nat" where
  "hex_value c = (let n = of_char c in if n \<le> 57 then n - 48 else n - 87)"

definition unhex :: "string \<Rightarrow> nat" where
  "unhex s = foldl (\<lambda>a c. 16 * a + hex_value c) 0 s"

subsection \<open>Element accessors\<close>

text \<open>
  A \<^verbatim>\<open>*page\<close> or \<^verbatim>\<open>*leafPageElement\<close> is an address in the mapped file together with the
  struct found there; the accessors compute addresses from the first and read fields of
  the second. Go's \<^verbatim>\<open>int\<close> has 64 bits on the platforms the mapping code is built for.
\<close>

text \<open>
  Modelled from the spec: \<^verbatim>\<open>unsafeAdd\<close> is declared outside the two source files. It is the
  address \<open>offset\<close> bytes after \<open>base\<close>.
\<close>

definition unsafeAdd :: "nat \<Rightarrow> nat \<Rightarrow> nat" where
  "unsafeAdd base offset = base + offset"

text \<open>
  Modelled from the spec: \<^verbatim>\<open>unsafeSlice\<close> is declared outside the two source files. It turns
  the whole element array at an address into a typed slice in one call: the slice of
  \<open>len\<close> elements that starts there.
\<close>

definition unsafeSlice :: "nat \<Rightarrow> go_int \<Rightarrow> slice" where
  "unsafeSlice dat len = \<lparr>Data = dat, Len = nat (sint len), Cap = nat (sint len)\<rparr>"

text \<open>
  Modelled from the spec: \<^verbatim>\<open>unsafeByteSlice\<close> is declared outside the two source files. It
  is the byte range from index \<open>i\<close> up to index \<open>j\<close>, counted from the address \<open>offset\<close> bytes
  after \<open>base\<close>: a key occupies the \<^verbatim>\<open>ksize\<close> bytes from the element's address plus
  \<^verbatim>\<open>pos\<close>, its value the \<^verbatim>\<open>vsize\<close> bytes that follow.
\<close>

definition unsafeByteSlice :: "nat \<Rightarrow> nat \<Rightarrow> go_int \<Rightarrow> go_int \<Rightarrow> slice" where
  "unsafeByteSlice base offset i j =
     \<lparr>Data = nat (int (unsafeAdd base offset) + sint i), Len = nat (sint j - sint i),
      Cap = nat (sint j - sint i)\<rparr>"

definition leafPageElements :: "nat \<Rightarrow> page \<Rightarrow> slice option" where
  "leafPageElements p_addr p =
     (if page_count p = 0 then None
      else (let dat = unsafeAdd p_addr pageHeaderSize
            in Some (unsafeSlice dat (ucast (page_count p)))))"

definition branchPageElements :: "nat \<Rightarrow> page \<Rightarrow> slice option" where
  "branchPageElements p_addr p =
     (if page_count p = 0 then None
      else (let dat = unsafeAdd p_addr pageHeaderSize
            in Some (unsafeSlice dat (ucast (page_count p)))))"

definition leafPageElement_key :: "nat \<Rightarrow> leafPageElement \<Rightarrow> slice" where
  "leafPageElement_key n_addr n =
     (let i = (ucast (leaf_pos n) :: go_int);
          j = i + ucast (leaf_ksize n)
      in unsafeByteSlice n_addr 0 i j)"

definition leafPageElement_value :: "nat \<Rightarrow> leafPageElement \<Rightarrow> slice" where
  "leafPageElement_value n_addr n =
     (let i = (ucast (leaf_pos n) :: go_int) + ucast (leaf_ksize n);
          j = i + ucast (leaf_vsize n)
      in unsafeByteSlice n_addr 0 i j)"

text \<open>
  What a slice denotes in a memory: the elements that \<open>load\<close> finds at the addresses of a
  typed slice (none for \<^verbatim>\<open>nil\<close>), and the bytes of a byte slice.
\<close>

definition slice_elems :: "(nat \<Rightarrow> 'a) \<Rightarrow> nat \<Rightarrow> slice option \<Rightarrow> 'a list" where
  "slice_elems load esize s =
     (case s of None \<Rightarrow> [] | Some h \<Rightarrow> map (\<lambda>i. load (Data h + i * esize)) [0..<Len h])"

definition slice_bytes :: "(nat \<Rightarrow> 8 word) \<Rightarrow> slice \<Rightarrow> 8 word list" where
  "slice_bytes mem s = map (\<lambda>i. mem (Data s + i)) [0..<Len s]"

subsection \<open>merge and mergepgids\<close>

type_synonym pgids = "pgid list"

text \<open>
  \<^verbatim>\<open>sort.Search(n, f)\<close> of the standard library: a binary search over \<open>[0, n)\<close> for the
  least index where \<open>f\<close> holds (\<open>n\<close> when there is none), which it finds when \<open>f\<close> is
  false on a prefix and true from there on. The loop is the library's own.
\<close>

function search_loop :: "(nat \<Rightarrow> bool) \<Rightarrow> nat \<Rightarrow> nat \<Rightarrow> nat" where
  "search_loop f i j =
     (if i < j then
        (let h = (i + j) div 2
         in if \<not> f h then search_loop f (h + 1) j else search_loop f i h)
      else i)"
  by pat_completeness auto
termination
  by (relation "measure (\<lambda>(f, i, j). j - i)") auto

declare search_loop.simps [simp del]

definition sort_Search :: "nat \<Rightarrow> (nat \<Rightarrow> bool) \<Rightarrow> nat" where
  "sort_Search n f = search_loop f 0 n"

text \<open>
  The slice \<^verbatim>\<open>merged\<close> is \<^verbatim>\<open>dst[:0]\<close> grown by \<^verbatim>\<open>append\<close>: it shares the array of
  \<^verbatim>\<open>dst\<close>, so it is that array's contents with the length of \<^verbatim>\<open>merged\<close>, and
  \<^verbatim>\<open>append(merged, xs...)\<close> writes \<open>xs\<close> into the array from that length on. (Go writes in
  place while the capacity lasts; past the guard of \<^verbatim>\<open>mergepgids\<close> the appends never pass
  the length of \<^verbatim>\<open>dst\<close>, see \<open>mergepgids_result\<close>.)
\<close>

definition go_append :: "pgids \<times> nat \<Rightarrow> pgids \<Rightarrow> pgids \<times> nat" where
  "go_append m xs =
     (case m of (arr, k) \<Rightarrow> (take k arr @ xs @ drop (k + length xs) arr, k + length xs))"

text \<open>\<^verbatim>\<open>copy(dst, src)\<close> copies as many elements as both slices have.\<close>

definition go_copy :: "pgids \<Rightarrow> pgids \<Rightarrow> pgids" where
  "go_copy dst src = (let n = min (length dst) (length src) in take n src @ drop n dst)"

text \<open>
  What the search returns for any \<open>f\<close>: an index within the bounds, with \<open>f\<close> true at it
  (unless it is the upper bound) and false just before it (unless it is the lower bound).
  The termination of the merge loop rests on it.
\<close>

lemma search_loop_bounds:
  "i \<le> j \<Longrightarrow>
     i \<le> search_loop f i j \<and> search_loop f i j \<le> j \<and>
     (search_loop f i j < j \<longrightarrow> f (search_loop f i j)) \<and>
     (i < search_loop f i j \<longrightarrow> \<not> f (search_loop f i j - 1))"
proof (induction f i j rule: search_loop.induct)
  case (1 f i j)
  show ?case
  proof (cases "i < j")
    case False
    then have "search_loop f i j = i"
      by (subst search_loop.simps) simp
    with False "1.prems" show ?thesis
      by simp
  next
    case True
    define h where "h = (i + j) div 2"
    have h: "i \<le> h" "h < j" using True by (simp_all add: h_def)
    show ?thesis
    proof (cases "f h")
      case False
      then have eq: "search_loop f i j = search_loop f (h + 1) j"
        using True by (simp add: search_loop.simps [of f i j] h_def Let_def)
      have "h + 1 \<le> search_loop f (h + 1) j \<and> search_loop f (h + 1) j \<le> j \<and>
          (search_loop f (h + 1) j < j \<longrightarrow> f (search_loop f (h + 1) j)) \<and>
          (h + 1 < search_loop f (h + 1) j \<longrightarrow> \<not> f (search_loop f (h + 1) j - 1))"
        using "1.IH"(1) [OF True h_def False] h by simp
      with False h show ?thesis
        unfolding eq by (cases "search_loop f (h + 1) j = h + 1") auto
    next
      case fh: True
      then have eq: "search_loop f i j = search_loop f i h"
        using True by (simp add: search_loop.simps [of f i j] h_def Let_def)
      have "i \<le> search_loop f i h \<and> search_loop f i h \<le> h \<and>
          (search_loop f i h < h \<longrightarrow> f (search_loop f i h)) \<and>
          (i < search_loop f i h \<longrightarrow> \<not> f (search_loop f i h - 1))"
        using "1.IH"(2) [OF True h_def] fh h by simp
      with fh h show ?thesis
        unfolding eq by (cases "search_loop f i h = h") auto
    qed
  qed
qed

lemma sort_Search_le: "sort_Search n f \<le> n"
  using search_loop_bounds [of 0 n f] by (simp add: sort_Search_def)

lemma sort_Search_0: "sort_Search n f = 0 \<Longrightarrow> 0 < n \<Longrightarrow> f 0"
  using search_loop_bounds [of 0 n f] by (simp add: sort_Search_def)

lemma sort_Search_pred: "0 < sort_Search n f \<Longrightarrow> \<not> f (sort_Search n f - 1)"
  using search_loop_bounds [of 0 n f] by (simp add: sort_Search_def)

text \<open>
  The loop of \<^verbatim>\<open>mergepgids\<close> with the \<^verbatim>\<open>append\<close> that follows it. Reading
  \<^verbatim>\<open>follow[0]\<close> panics when \<^verbatim>\<open>follow\<close> is empty. An iteration that appends nothing
  (\<open>n = 0\<close>) swaps the two slices, and the next one appends at least one element: the
  measure counts the elements left twice, plus one when the head of \<^verbatim>\<open>follow\<close> is the
  smaller.
\<close>

function mergeloop :: "pgids \<times> nat \<Rightarrow> pgids \<Rightarrow> pgids \<Rightarrow> panic + pgids \<times> nat" where
  "mergeloop merged lead follow =
     (if 0 < length lead then
        (case follow of
           [] \<Rightarrow> Inl (IndexOutOfRange 0 0)
         | f0 # _ \<Rightarrow>
             (let n = sort_Search (length lead) (\<lambda>i. f0 < lead ! i);
                  merged' = go_append merged (take n lead)
              in if length lead \<le> n then Inr (go_append merged' follow)
                 else mergeloop merged' follow (drop n lead)))
      else Inr (go_append merged follow))"
  by pat_completeness auto
termination
proof (relation "measure (\<lambda>(merged, lead, follow).
    2 * (length lead + length follow) + (if hd follow < hd lead then 1 else 0))", goal_cases)
  case 1
  show ?case by simp
next
  case (2 merged lead follow f0 fs n merged')
  have n_le: "n \<le> length lead" using 2 by (simp add: sort_Search_le)
  show ?case
  proof (cases "n = 0")
    case True
    then have "f0 < lead ! 0"
      using 2 sort_Search_0 [of "length lead" "\<lambda>i. f0 < lead ! i"] by simp
    then show ?thesis
      using 2 True by (cases lead) auto
  next
    case False
    then show ?thesis using 2 n_le by auto
  qed
qed

declare mergeloop.simps [simp del]

text \<open>
  \<^verbatim>\<open>mergepgids(dst, a, b)\<close> returns nothing: its result is what it leaves in \<^verbatim>\<open>dst\<close>,
  or the panic. The three slices are lists of their own here: \<^verbatim>\<open>dst\<close> shares no memory
  with \<^verbatim>\<open>a\<close> or \<^verbatim>\<open>b\<close>, as in \<^verbatim>\<open>merge\<close>, which allocates it.
\<close>

definition mergepgids :: "pgids \<Rightarrow> pgids \<Rightarrow> pgids \<Rightarrow> panic + pgids" where
  "mergepgids dst a b =
     (if length dst < length a + length b
      then Inl (BadLen (length dst) (length a) (length b))
      else if length a = 0 then Inr (go_copy dst b)
      else if length b = 0 then Inr (go_copy dst a)
      else (let (lead, follow) = (if b ! 0 < a ! 0 then (b, a) else (a, b))
            in (case mergeloop (dst, 0) lead follow of
                  Inl p \<Rightarrow> Inl p
                | Inr m \<Rightarrow> Inr (fst m))))"

text \<open>
  \<^verbatim>\<open>a.merge(b)\<close>; \<^verbatim>\<open>make(pgids, len(a)+len(b))\<close> is a slice of zeros. A panic of
  \<^verbatim>\<open>mergepgids\<close> passes through.
\<close>

definition merge :: "pgids \<Rightarrow> pgids \<Rightarrow> panic + pgids" where
  "merge a b =
     (if length a = 0 then Inr b
      else if length b = 0 then Inr a
      else mergepgids (replicate (length a + length b) 0) a b)"

section \<open>bolt\_unix.go\<close>

subsection \<open>The database handle and the operating system\<close>

text \<open>
  Modelled from the spec: the declaration of \<^verbatim>\<open>DB\<close> is outside the two source files.
  These are the fields that bolt\_unix.go reads and writes: the descriptor of
  \<^verbatim>\<open>db.file\<close>, \<^verbatim>\<open>db.MmapFlags\<close>, and the mapped region of the spec's data model
  (the buffer \<^verbatim>\<open>dataref\<close>, the pointer \<^verbatim>\<open>data\<close> to its first byte, its size
  \<^verbatim>\<open>datasz\<close>).
\<close>

record DB =
  fd :: nat
  MmapFlags :: int
  dataref :: "slice option"
  data :: "nat option"
  datasz :: int

text \<open>
  The operating system, as the results of the system calls the code makes:
  \<^item> \<open>sys_flock i fd flag\<close>: the error number of the \<open>i\<close>-th \<^verbatim>\<open>flock(2)\<close> call of one
    \<^verbatim>\<open>flock\<close> invocation (counted from 0);
  \<^item> \<open>time_since i\<close>: what \<^verbatim>\<open>time.Since(t)\<close> returns when it is evaluated after the
    \<open>i\<close>-th attempt, a \<^verbatim>\<open>time.Duration\<close>, that is a signed 64-bit count of nanoseconds;
  \<^item> \<open>sys_mmap fd offset length prot flags\<close>: the error number or the address of
    \<^verbatim>\<open>mmap(2)\<close>;
  \<^item> \<open>sys_madvise addr len advice\<close>: the error number of \<^verbatim>\<open>madvise(2)\<close>;
  \<^item> \<open>sys_Munmap b\<close>: the result of \<^verbatim>\<open>syscall.Munmap(b)\<close>.
\<close>

type_synonym duration = "64 word"

record kernel =
  sys_flock :: "nat \<Rightarrow> nat \<Rightarrow> int \<Rightarrow> errno"
  time_since :: "nat \<Rightarrow> duration"
  sys_mmap :: "nat \<Rightarrow> int \<Rightarrow> int \<Rightarrow> int \<Rightarrow> int \<Rightarrow> errno + nat"
  sys_madvise :: "nat \<Rightarrow> nat \<Rightarrow> int \<Rightarrow> errno"
  sys_Munmap :: "slice \<Rightarrow> error option"

definition LOCK_SH :: int where "LOCK_SH = 1"
definition LOCK_EX :: int where "LOCK_EX = 2"
definition LOCK_NB :: int where "LOCK_NB = 4"
definition PROT_READ :: int where "PROT_READ = 1"
definition MAP_SHARED :: int where "MAP_SHARED = 1"
definition MADV_RANDOM :: int where "MADV_RANDOM = 1"

text \<open>
  The standard library wraps a system call's error number: 0 becomes \<^verbatim>\<open>nil\<close>, anything
  else the \<^verbatim>\<open>Errno\<close> itself.
\<close>

definition errnoErr :: "errno \<Rightarrow> error option" where
  "errnoErr e1 = (if e1 \<noteq> 0 then Some (Errno e1) else None)"

text \<open>
  \<^verbatim>\<open>syscall.Mmap\<close> of the standard library refuses a length that is not positive
  with \<^verbatim>\<open>EINVAL\<close>, and otherwise returns a slice of exactly \<open>length\<close> bytes at the address
  the kernel chose.
\<close>

definition syscall_Mmap ::
  "kernel \<Rightarrow> nat \<Rightarrow> int \<Rightarrow> int \<Rightarrow> int \<Rightarrow> int \<Rightarrow> error + slice" where
  "syscall_Mmap k f offset len prot flags =
     (if len \<le> 0 then Inl (Errno EINVAL)
      else (case sys_mmap k f offset len prot flags of
              Inl e \<Rightarrow> Inl (Errno e)
            | Inr addr \<Rightarrow> Inr \<lparr>Data = addr, Len = nat len, Cap = nat len\<rparr>))"

subsection \<open>flock\<close>

text \<open>
  The loop of \<^verbatim>\<open>flock\<close>, at its \<open>i\<close>-th attempt: \<open>i\<close> is also the number of
  \<^verbatim>\<open>time.Sleep\<close> calls made so far, and the loop returns it with the error. The loop may
  run forever (a zero timeout and a lock that is never released), which is the value \<open>None\<close>.
  The subtraction \<open>timeout - retry\<close> is that of \<^verbatim>\<open>int64\<close> and wraps around; the comparison
  is signed.
\<close>

partial_function (option) flock_loop ::
  "(nat \<Rightarrow> errno) \<Rightarrow> (nat \<Rightarrow> duration) \<Rightarrow> duration \<Rightarrow> duration \<Rightarrow> nat
     \<Rightarrow> (error option \<times> nat) option" where
  "flock_loop attempt since timeout retry i =
     (let err = errnoErr (attempt i) in
      if err = None then Some (None, i)
      else if err \<noteq> Some (Errno EWOULDBLOCK) then Some (err, i)
      else if timeout \<noteq> 0 \<and> timeout - retry <s since i then Some (Some ErrTimeout, i)
      else flock_loop attempt since timeout retry (Suc i))"

text \<open>
  \<^verbatim>\<open>flock(db, exclusive, timeout)\<close>. The constant \<^verbatim>\<open>flockRetryTimeout\<close> is declared
  outside bolt\_unix.go and is a parameter here. The start time \<^verbatim>\<open>t\<close> is read before the
  first attempt; the code uses it through \<^verbatim>\<open>time.Since(t)\<close> only.
\<close>

definition flock_flag :: "bool \<Rightarrow> int" where
  "flock_flag exclusive = (if exclusive then LOCK_NB OR LOCK_EX else LOCK_NB OR LOCK_SH)"

definition flock ::
  "kernel \<Rightarrow> duration \<Rightarrow> DB \<Rightarrow> bool \<Rightarrow> duration \<Rightarrow> (error option \<times> nat) option" where
  "flock k flockRetryTimeout db exclusive timeout =
     (let flag = flock_flag exclusive
      in flock_loop (\<lambda>i. sys_flock k i (fd db) flag) (time_since k)
           timeout flockRetryTimeout 0)"

subsection \<open>mmap, munmap, madvise\<close>

text \<open>\<^verbatim>\<open>madvise(b, advice)\<close>: taking \<^verbatim>\<open>&b[0]\<close> panics on an empty slice.\<close>

definition madvise :: "kernel \<Rightarrow> slice \<Rightarrow> int \<Rightarrow> panic + error option" where
  "madvise k b advice =
     (if Len b = 0 then Inl (IndexOutOfRange 0 0)
      else (let e1 = sys_madvise k (Data b) (Len b) advice
            in Inr (if e1 \<noteq> 0 then Some (Errno e1) else None)))"

text \<open>
  The last lines of \<^verbatim>\<open>mmap\<close>: the slice and the address of its first byte are saved in
  the handle (\<^verbatim>\<open>&b[0]\<close> panics on an empty slice).
\<close>

definition mmap_save :: "DB \<Rightarrow> slice \<Rightarrow> int \<Rightarrow> panic + (error option \<times> DB)" where
  "mmap_save db b sz =
     (if Len b = 0 then Inl (IndexOutOfRange 0 0)
      else Inr (None, db\<lparr>dataref := Some b, data := Some (Data b), datasz := sz\<rparr>))"

definition mmap :: "kernel \<Rightarrow> DB \<Rightarrow> int \<Rightarrow> panic + (error option \<times> DB)" where
  "mmap k db sz =
     (case syscall_Mmap k (fd db) 0 sz PROT_READ (MAP_SHARED OR MmapFlags db) of
        Inl err \<Rightarrow> Inr (Some err, db)
      | Inr b \<Rightarrow>
          (case madvise k b MADV_RANDOM of
             Inl p \<Rightarrow> Inl p
           | Inr None \<Rightarrow> mmap_save db b sz
           | Inr (Some err) \<Rightarrow>
               if err \<noteq> Errno ENOSYS
               then Inr (Some (Errorf ''madvise: %s'' err), db)
               else mmap_save db b sz))"

definition munmap :: "kernel \<Rightarrow> DB \<Rightarrow> error option \<times> DB" where
  "munmap k db =
     (case dataref db of
        None \<Rightarrow> (None, db)
      | Some b \<Rightarrow>
          (let err = sys_Munmap k b
           in (err, db\<lparr>dataref := None, data := None, datasz := 0\<rparr>)))"

text \<open>
  The three fields of the mapping are written together, by \<^verbatim>\<open>mmap\<close> and by
  \<^verbatim>\<open>munmap\<close> only: a handle that has no \<^verbatim>\<open>dataref\<close> has no \<^verbatim>\<open>data\<close> and size 0.
\<close>

definition unmapped :: "DB \<Rightarrow> bool" where
  "unmapped db = (dataref db = None \<and> data db = None \<and> datasz db = 0)"

definition db_inv :: "DB \<Rightarrow> bool" where
  "db_inv db = (dataref db = None \<longrightarrow> data db = None \<and> datasz db = 0)"

section \<open>Example values\<close>

text \<open>
  Two operating systems and two handles, for the concrete runs below. In the first the
  lock is always held by another process, the clock advances by 51 ms from one attempt to
  the next, \<^verbatim>\<open>madvise\<close> is not implemented and unmapping succeeds. In the second the
  third lock attempt fails with \<^verbatim>\<open>EBADF\<close> (9), and \<^verbatim>\<open>madvise\<close> and \<^verbatim>\<open>munmap\<close> fail
  with \<^verbatim>\<open>EINVAL\<close> (22).
\<close>

definition kernel_busy :: kernel where
  "kernel_busy =
     \<lparr>sys_flock = (\<lambda>i f flag. EWOULDBLOCK),
      time_since = (\<lambda>i. word_of_nat i * 51000000),
      sys_mmap = (\<lambda>f off len prot flags. Inr 4096),
      sys_madvise = (\<lambda>addr len advice. ENOSYS),
      sys_Munmap = (\<lambda>b. None)\<rparr>"

definition kernel_badfd :: kernel where
  "kernel_badfd =
     \<lparr>sys_flock = (\<lambda>i f flag. if i < 2 then EWOULDBLOCK else 9),
      time_since = (\<lambda>i. word_of_nat i * 51000000),
      sys_mmap = (\<lambda>f off len prot flags. Inr 4096),
      sys_madvise = (\<lambda>addr len advice. 22),
      sys_Munmap = (\<lambda>b. Some (Errno 22))\<rparr>"

definition db_closed :: DB where
  "db_closed = \<lparr>fd = 3, MmapFlags = 0, dataref = None, data = None, datasz = 0\<rparr>"

definition db_mapped :: DB where
  "db_mapped =
     \<lparr>fd = 3, MmapFlags = 0, dataref = Some \<lparr>Data = 4096, Len = 4096, Cap = 4096\<rparr>,
      data = Some 4096, datasz = 4096\<rparr>"

definition page_empty :: page where
  "page_empty = \<lparr>page_id = 5, page_flags = 0x02, page_count = 0, page_overflow = 0\<rparr>"

section \<open>Properties of page.go\<close>

subsection \<open>typ\<close>

lemma hex_value_digit:
  assumes "d < 16"
  shows "hex_value (hex_digit d) = d"
proof -
  have digits: "\<forall>d\<in>set [0..<16]. hex_value (hex_digit d) = d"
    by code_simp
  have "d \<in> set [0..<16]"
    using assms by simp
  with digits show ?thesis
    by (rule bspec)
qed

lemma unhex_snoc: "unhex (s @ [c]) = 16 * unhex s + hex_value c"
  by (simp add: unhex_def)

lemma unhex_hex: "unhex (hex n) = n"
proof (induction n rule: hex.induct)
  case (1 n)
  show ?case
  proof (cases "n < 16")
    case True
    then show ?thesis
      by (subst hex.simps) (simp add: unhex_def hex_value_digit)
  next
    case False
    then have "unhex (hex n) = 16 * unhex (hex (n div 16)) + hex_value (hex_digit (n mod 16))"
      by (subst hex.simps) (simp add: unhex_snoc)
    with 1 False show ?thesis
      by (simp add: hex_value_digit)
  qed
qed

lemma unhex_zeros: "unhex (replicate k CHR ''0'' @ s) = unhex s"
  by (induction k) (simp_all add: unhex_def hex_value_def)

lemma unhex_fmt_02x: "unhex (fmt_02x n) = n"
  by (simp add: fmt_02x_def Let_def unhex_zeros unhex_hex)

lemma flag_bits:
  fixes f :: "16 word"
  shows "f AND 0x01 \<noteq> 0 \<longleftrightarrow> bit f 0" "f AND 0x02 \<noteq> 0 \<longleftrightarrow> bit f 1"
    "f AND 0x04 \<noteq> 0 \<longleftrightarrow> bit f 2" "f AND 0x10 \<noteq> 0 \<longleftrightarrow> bit f 4"
  using bit_iff_and_push_bit_not_eq_0 [of f 0] bit_iff_and_push_bit_not_eq_0 [of f 1]
    bit_iff_and_push_bit_not_eq_0 [of f 2] bit_iff_and_push_bit_not_eq_0 [of f 4]
  by simp_all

text \<open>
  Claim C8, as the code has it. \<^verbatim>\<open>typ()\<close> tests the four type bits in the order branch,
  leaf, meta, freelist and names the first one that is set, whatever the other bits are: in
  particular it returns "branch", "leaf", "meta", "freelist" for the flags 0x01, 0x02,
  0x04, 0x10. It returns the unknown string exactly when none of the four bits is set;
  that string is none of the four names and holds the flags in hexadecimal, which read
  back give the flags.
\<close>

theorem page_typ_by_bits:
  "(page_flags p = 0x01 \<longrightarrow> page_typ p = ''branch'') \<and>
   (page_flags p = 0x02 \<longrightarrow> page_typ p = ''leaf'') \<and>
   (page_flags p = 0x04 \<longrightarrow> page_typ p = ''meta'') \<and>
   (page_flags p = 0x10 \<longrightarrow> page_typ p = ''freelist'') \<and>
   (bit (page_flags p) 0 \<longrightarrow> page_typ p = ''branch'') \<and>
   (\<not> bit (page_flags p) 0 \<and> bit (page_flags p) 1 \<longrightarrow> page_typ p = ''leaf'') \<and>
   (\<not> bit (page_flags p) 0 \<and> \<not> bit (page_flags p) 1 \<and> bit (page_flags p) 2 \<longrightarrow>
      page_typ p = ''meta'') \<and>
   (\<not> bit (page_flags p) 0 \<and> \<not> bit (page_flags p) 1 \<and> \<not> bit (page_flags p) 2 \<and>
    bit (page_flags p) 4 \<longrightarrow> page_typ p = ''freelist'') \<and>
   (\<not> bit (page_flags p) 0 \<and> \<not> bit (page_flags p) 1 \<and> \<not> bit (page_flags p) 2 \<and>
    \<not> bit (page_flags p) 4 \<longrightarrow>
      page_typ p = ''unknown<'' @ fmt_02x (unat (page_flags p)) @ ''>'' \<and>
      page_typ p \<notin> {''branch'', ''leaf'', ''meta'', ''freelist''} \<and>
      unhex (fmt_02x (unat (page_flags p))) = unat (page_flags p))"
proof -
  have names: "page_flags p = 0x01 \<longrightarrow> page_typ p = ''branch''"
    "page_flags p = 0x02 \<longrightarrow> page_typ p = ''leaf''"
    "page_flags p = 0x04 \<longrightarrow> page_typ p = ''meta''"
    "page_flags p = 0x10 \<longrightarrow> page_typ p = ''freelist''"
    by (simp_all add: page_typ_def branchPageFlag_def leafPageFlag_def metaPageFlag_def
        freelistPageFlag_def)
  have bits: "bit (page_flags p) 0 \<longrightarrow> page_typ p = ''branch''"
    "\<not> bit (page_flags p) 0 \<and> bit (page_flags p) 1 \<longrightarrow> page_typ p = ''leaf''"
    "\<not> bit (page_flags p) 0 \<and> \<not> bit (page_flags p) 1 \<and> bit (page_flags p) 2 \<longrightarrow>
      page_typ p = ''meta''"
    "\<not> bit (page_flags p) 0 \<and> \<not> bit (page_flags p) 1 \<and> \<not> bit (page_flags p) 2 \<and>
      bit (page_flags p) 4 \<longrightarrow> page_typ p = ''freelist''"
    "\<not> bit (page_flags p) 0 \<and> \<not> bit (page_flags p) 1 \<and> \<not> bit (page_flags p) 2 \<and>
      \<not> bit (page_flags p) 4 \<longrightarrow>
      page_typ p = ''unknown<'' @ fmt_02x (unat (page_flags p)) @ ''>''"
    using flag_bits [of "page_flags p"]
    by (simp_all add: page_typ_def branchPageFlag_def leafPageFlag_def metaPageFlag_def
        freelistPageFlag_def)
  from names bits show ?thesis
    by (simp add: unhex_fmt_02x)
qed

theorem page_typ_by_bits_witness:
  "page_typ \<lparr>page_id = 7, page_flags = 0x01, page_count = 0, page_overflow = 0\<rparr> = ''branch'' \<and>
   page_typ \<lparr>page_id = 7, page_flags = 0x02, page_count = 0, page_overflow = 0\<rparr> = ''leaf'' \<and>
   page_typ \<lparr>page_id = 7, page_flags = 0x04, page_count = 0, page_overflow = 0\<rparr> = ''meta'' \<and>
   page_typ \<lparr>page_id = 7, page_flags = 0x10, page_count = 0, page_overflow = 0\<rparr> = ''freelist'' \<and>
   page_typ \<lparr>page_id = 7, page_flags = 0x12, page_count = 0, page_overflow = 0\<rparr> = ''leaf'' \<and>
   page_typ \<lparr>page_id = 7, page_flags = 0x14, page_count = 0, page_overflow = 0\<rparr> = ''meta'' \<and>
   page_typ \<lparr>page_id = 7, page_flags = 0x30, page_count = 0, page_overflow = 0\<rparr> = ''freelist'' \<and>
   page_typ \<lparr>page_id = 7, page_flags = 0x20, page_count = 0, page_overflow = 0\<rparr> = ''unknown<20>'' \<and>
   unhex ''20'' = unat (0x20 :: 16 word)"
proof -
  have fmt: "fmt_02x 32 = ''20''"
    by code_simp
  show ?thesis
    using page_typ_by_bits [of "\<lparr>page_id = 7, page_flags = 0x01, page_count = 0, page_overflow = 0\<rparr>"]
      page_typ_by_bits [of "\<lparr>page_id = 7, page_flags = 0x02, page_count = 0, page_overflow = 0\<rparr>"]
      page_typ_by_bits [of "\<lparr>page_id = 7, page_flags = 0x04, page_count = 0, page_overflow = 0\<rparr>"]
      page_typ_by_bits [of "\<lparr>page_id = 7, page_flags = 0x10, page_count = 0, page_overflow = 0\<rparr>"]
      page_typ_by_bits [of "\<lparr>page_id = 7, page_flags = 0x12, page_count = 0, page_overflow = 0\<rparr>"]
      page_typ_by_bits [of "\<lparr>page_id = 7, page_flags = 0x14, page_count = 0, page_overflow = 0\<rparr>"]
      page_typ_by_bits [of "\<lparr>page_id = 7, page_flags = 0x30, page_count = 0, page_overflow = 0\<rparr>"]
      page_typ_by_bits [of "\<lparr>page_id = 7, page_flags = 0x20, page_count = 0, page_overflow = 0\<rparr>"]
    by (simp add: fmt bit_numeral_simps)
qed

text \<open>
  The flags 0x03 are none of the four single-bit patterns, and \<^verbatim>\<open>typ()\<close> returns
  "branch" for them, not an unknown string.
\<close>

theorem page_typ_counterexample:
  "page_typ \<lparr>page_id = 0, page_flags = 0x03, page_count = 0, page_overflow = 0\<rparr> = ''branch'' \<and>
   (0x03 :: 16 word) \<noteq> 0x01 \<and> (0x03 :: 16 word) \<noteq> 0x02 \<and>
   (0x03 :: 16 word) \<noteq> 0x04 \<and> (0x03 :: 16 word) \<noteq> 0x10"
  by (simp add: page_typ_def branchPageFlag_def)

subsection \<open>Element accessors\<close>

text \<open>
  The conversions \<^verbatim>\<open>int(n.pos)\<close>, \<^verbatim>\<open>int(n.ksize)\<close>, \<^verbatim>\<open>int(n.vsize)\<close> and their sums
  stay below \<open>2 ^ 63\<close>: the 64-bit additions do not wrap around and the results are not
  negative.
\<close>

lemma uint_u32_bound: "uint (x :: 32 word) < 2 ^ 32"
  using uint_bounded [of x] by simp

lemma uint_go_int_of_u32: "uint (ucast (x :: 32 word) :: go_int) = uint x"
  using uint_u32_bound [of x]
  by (simp add: unsigned_ucast_eq take_bit_int_eq_self)

lemma sint_small: "uint (w :: go_int) < 2 ^ 63 \<Longrightarrow> sint w = uint w"
proof -
  assume "uint w < 2 ^ 63"
  moreover have "- (2 ^ 63) \<le> uint w"
    by (rule order_trans [OF _ uint_nonnegative]) simp
  ultimately have "signed_take_bit 63 (uint w) = uint w"
    by (intro signed_take_bit_int_eq_self) simp_all
  then show ?thesis
    by (simp add: sint_uint)
qed

lemma uint_add2:
  "uint ((ucast (x :: 32 word) :: go_int) + ucast (y :: 32 word)) = uint x + uint y"
proof -
  have "uint (ucast x :: go_int) + uint (ucast y :: go_int) < 2 ^ LENGTH(64)"
    using uint_u32_bound [of x] uint_u32_bound [of y] by (simp add: uint_go_int_of_u32)
  then show ?thesis
    by (simp add: uint_add_lem [THEN iffD1] uint_go_int_of_u32)
qed

lemma uint_add3:
  "uint ((ucast (x :: 32 word) :: go_int) + ucast (y :: 32 word) + ucast (z :: 32 word)) =
     uint x + uint y + uint z"
proof -
  have "uint ((ucast x :: go_int) + ucast y) + uint (ucast z :: go_int) < 2 ^ LENGTH(64)"
    using uint_u32_bound [of x] uint_u32_bound [of y] uint_u32_bound [of z]
    by (simp add: uint_go_int_of_u32 uint_add2)
  then show ?thesis
    by (simp add: uint_add_lem [THEN iffD1] uint_go_int_of_u32 uint_add2)
qed

lemma sint_go_ints:
  "sint (ucast (x :: 32 word) :: go_int) = uint x"
  "sint ((ucast (x :: 32 word) :: go_int) + ucast (y :: 32 word)) = uint x + uint y"
  "sint ((ucast (x :: 32 word) :: go_int) + ucast (y :: 32 word) + ucast (z :: 32 word)) =
     uint x + uint y + uint z"
proof -
  have b: "uint x < 2 ^ 32" "uint y < 2 ^ 32" "uint z < 2 ^ 32"
    by (rule uint_u32_bound)+
  have "uint (ucast x :: go_int) < 2 ^ 63"
    using b by (simp add: uint_go_int_of_u32)
  then show "sint (ucast x :: go_int) = uint x"
    by (simp add: sint_small uint_go_int_of_u32)
  have "uint ((ucast x :: go_int) + ucast y) < 2 ^ 63"
    using b by (simp add: uint_add2)
  then show "sint ((ucast x :: go_int) + ucast y) = uint x + uint y"
    by (simp add: sint_small uint_add2)
  have "uint ((ucast x :: go_int) + ucast y + ucast z) < 2 ^ 63"
    using b by (simp add: uint_add3)
  then show "sint ((ucast x :: go_int) + ucast y + ucast z) = uint x + uint y + uint z"
    by (simp add: sint_small uint_add3)
qed

lemma nat_addr_offset: "nat (int a + uint (x :: 32 word)) = a + unat x"
proof -
  have "uint x = int (unat x)" by simp
  then have "nat (int a + uint x) = nat (int (a + unat x))"
    by (simp only: of_nat_add)
  then show ?thesis by (simp only: nat_int)
qed

lemma nat_addr_offset2:
  "nat (int a + (uint (x :: 32 word) + uint (y :: 32 word))) = a + unat x + unat y"
proof -
  have "uint x = int (unat x)" "uint y = int (unat y)" by simp_all
  then have "nat (int a + (uint x + uint y)) = nat (int (a + unat x + unat y))"
    by (simp only: of_nat_add add.assoc)
  then show ?thesis by (simp only: nat_int)
qed

text \<open>
  Claim C3. For a leaf element at address \<open>a\<close> with fields \<^verbatim>\<open>pos\<close>, \<^verbatim>\<open>ksize\<close>,
  \<^verbatim>\<open>vsize\<close>, \<^verbatim>\<open>key()\<close> is the slice of exactly \<^verbatim>\<open>ksize\<close> bytes that starts at
  \<open>a + pos\<close>, and \<^verbatim>\<open>value()\<close> the slice of exactly \<^verbatim>\<open>vsize\<close> bytes that starts at
  \<open>a + pos + ksize\<close>, right after the key; in any memory they hold the bytes at these
  addresses.
\<close>

theorem leaf_key_value_ranges:
  "Data (leafPageElement_key a n) = a + unat (leaf_pos n) \<and>
   Len (leafPageElement_key a n) = unat (leaf_ksize n) \<and>
   slice_bytes mem (leafPageElement_key a n) =
     map (\<lambda>i. mem (a + unat (leaf_pos n) + i)) [0..<unat (leaf_ksize n)] \<and>
   Data (leafPageElement_value a n) = a + unat (leaf_pos n) + unat (leaf_ksize n) \<and>
   Len (leafPageElement_value a n) = unat (leaf_vsize n) \<and>
   slice_bytes mem (leafPageElement_value a n) =
     map (\<lambda>i. mem (a + unat (leaf_pos n) + unat (leaf_ksize n) + i)) [0..<unat (leaf_vsize n)]"
proof -
  have "leafPageElement_key a n =
      \<lparr>Data = nat (int a + uint (leaf_pos n)),
       Len = nat (uint (leaf_pos n) + uint (leaf_ksize n) - uint (leaf_pos n)),
       Cap = nat (uint (leaf_pos n) + uint (leaf_ksize n) - uint (leaf_pos n))\<rparr>"
    by (simp only: leafPageElement_key_def unsafeByteSlice_def unsafeAdd_def Let_def sint_go_ints
        add_0_right)
  then have key: "leafPageElement_key a n =
      \<lparr>Data = a + unat (leaf_pos n), Len = unat (leaf_ksize n), Cap = unat (leaf_ksize n)\<rparr>"
    by (simp only: nat_addr_offset add_diff_cancel_left' unat_eq_nat_uint)
  have "leafPageElement_value a n =
      \<lparr>Data = nat (int a + (uint (leaf_pos n) + uint (leaf_ksize n))),
       Len = nat (uint (leaf_pos n) + uint (leaf_ksize n) + uint (leaf_vsize n)
                  - (uint (leaf_pos n) + uint (leaf_ksize n))),
       Cap = nat (uint (leaf_pos n) + uint (leaf_ksize n) + uint (leaf_vsize n)
                  - (uint (leaf_pos n) + uint (leaf_ksize n)))\<rparr>"
    by (simp only: leafPageElement_value_def unsafeByteSlice_def unsafeAdd_def Let_def sint_go_ints
        add_0_right)
  then have val: "leafPageElement_value a n =
      \<lparr>Data = a + unat (leaf_pos n) + unat (leaf_ksize n), Len = unat (leaf_vsize n),
       Cap = unat (leaf_vsize n)\<rparr>"
    by (simp only: nat_addr_offset2 add_diff_cancel_left' unat_eq_nat_uint)
  show ?thesis
    by (simp only: key val slice_bytes_def slice.simps)
qed

text \<open>
  Claim C5. For a page whose \<^verbatim>\<open>count\<close> is 0, \<^verbatim>\<open>leafPageElements\<close> and
  \<^verbatim>\<open>branchPageElements\<close> return \<^verbatim>\<open>nil\<close>, the empty sequence: it has no element in any
  memory, so nothing past the page header is read.
\<close>

theorem page_elements_empty:
  "page_count p = 0 \<Longrightarrow>
     leafPageElements a p = None \<and> branchPageElements a p = None \<and>
     slice_elems load_leaf leafPageElementSize (leafPageElements a p) = [] \<and>
     slice_elems load_branch branchPageElementSize (branchPageElements a p) = []"
  by (simp add: leafPageElements_def branchPageElements_def slice_elems_def)

theorem page_elements_empty_witness:
  "page_count page_empty = 0 \<and>
   leafPageElements 4096 page_empty = None \<and>
   branchPageElements 4096 page_empty = None \<and>
   slice_elems (\<lambda>addr. addr) leafPageElementSize (leafPageElements 4096 page_empty) = [] \<and>
   slice_elems (\<lambda>addr. addr) branchPageElementSize (branchPageElements 4096 page_empty) = []"
proof -
  have empty: "page_count page_empty = 0"
    by (simp add: page_empty_def)
  from page_elements_empty [OF empty, of 4096 "\<lambda>addr. addr" "\<lambda>addr. addr"] empty
  show ?thesis by blast
qed

subsection \<open>merge and mergepgids\<close>

lemma go_append_twice:
  "k + length xs + length ys \<le> length arr \<Longrightarrow>
   go_append (go_append (arr, k) xs) ys = go_append (arr, k) (xs @ ys)"
  by (simp add: go_append_def ac_simps)

lemma sort_Search_prefix_le:
  assumes "sorted lead" and "x \<in> set (take (sort_Search (length lead) (\<lambda>i. f0 < lead ! i)) lead)"
  shows "x \<le> f0"
proof -
  let ?n = "sort_Search (length lead) (\<lambda>i. f0 < lead ! i)"
  from assms(2) obtain i where i: "i < ?n" "i < length lead" "x = lead ! i"
    by (auto simp: in_set_conv_nth)
  then have pos: "0 < ?n" by simp
  have n_le: "?n \<le> length lead" by (rule sort_Search_le)
  have "\<not> f0 < lead ! (?n - 1)"
    using sort_Search_pred [OF pos] .
  moreover have "lead ! i \<le> lead ! (?n - 1)"
    using assms(1) i pos n_le by (intro sorted_nth_mono) auto
  ultimately show ?thesis using i by simp
qed

text \<open>
  The loop, started on a non-empty \<^verbatim>\<open>follow\<close> with room for both slices in the array,
  does not panic: it writes some list \<open>ms\<close> at the end of \<^verbatim>\<open>merged\<close>, which has the
  elements of both slices and is sorted when both are.
\<close>

lemma mergeloop_result:
  "follow \<noteq> [] \<Longrightarrow> k + length lead + length follow \<le> length arr \<Longrightarrow>
   \<exists>ms. mergeloop (arr, k) lead follow = Inr (go_append (arr, k) ms) \<and>
        mset ms = mset lead + mset follow \<and>
        (sorted lead \<and> sorted follow \<longrightarrow> sorted ms)"
proof (induction "(arr, k)" lead follow arbitrary: arr k rule: mergeloop.induct)
  case (1 lead follow)
  from "1.prems"(1) obtain f0 fs where follow: "follow = f0 # fs"
    by (cases follow) auto
  show ?case
  proof (cases "0 < length lead")
    case False
    then have "mergeloop (arr, k) lead follow = Inr (go_append (arr, k) follow)"
      by (subst mergeloop.simps) simp
    with False show ?thesis by auto
  next
    case True
    define n where "n = sort_Search (length lead) (\<lambda>i. f0 < lead ! i)"
    have n_le: "n \<le> length lead" by (simp add: n_def sort_Search_le)
    have prefix: "x \<le> f0" if "sorted lead" "x \<in> set (take n lead)" for x
      using sort_Search_prefix_le [OF that(1)] that(2) by (simp add: n_def)
    show ?thesis
    proof (cases "length lead \<le> n")
      case exhausted: True
      then have n_eq: "n = length lead" using n_le by simp
      have "mergeloop (arr, k) lead follow =
          Inr (go_append (go_append (arr, k) (take n lead)) follow)"
        using True exhausted by (subst mergeloop.simps) (simp add: follow n_def Let_def)
      also have "\<dots> = Inr (go_append (arr, k) (lead @ follow))"
        using "1.prems"(2) by (simp add: n_eq go_append_twice)
      finally have eq: "mergeloop (arr, k) lead follow = Inr (go_append (arr, k) (lead @ follow))" .
      have "sorted (lead @ follow)" if "sorted lead" "sorted follow"
        using that prefix [OF that(1)] by (fastforce simp: sorted_append n_eq follow)
      with eq show ?thesis by auto
    next
      case remaining: False
      have eq: "mergeloop (arr, k) lead follow =
          mergeloop (go_append (arr, k) (take n lead)) follow (drop n lead)"
        using True remaining by (subst mergeloop.simps) (simp add: follow n_def Let_def)
      have app: "go_append (arr, k) (take n lead) =
          (take k arr @ take n lead @ drop (k + n) arr, k + n)"
        using n_le by (simp add: go_append_def min_def)
      have "\<exists>ms. mergeloop (take k arr @ take n lead @ drop (k + n) arr, k + n) follow (drop n lead) =
            Inr (go_append (take k arr @ take n lead @ drop (k + n) arr, k + n) ms) \<and>
          mset ms = mset follow + mset (drop n lead) \<and>
          (sorted follow \<and> sorted (drop n lead) \<longrightarrow> sorted ms)"
      proof (rule "1.hyps" [OF True follow n_def app [symmetric] remaining])
        show "drop n lead \<noteq> []" using remaining by simp
        show "k + n + length follow + length (drop n lead)
            \<le> length (take k arr @ take n lead @ drop (k + n) arr)"
          using "1.prems"(2) n_le by simp
      qed
      then obtain ms where ms:
        "mergeloop (go_append (arr, k) (take n lead)) follow (drop n lead) =
            Inr (go_append (go_append (arr, k) (take n lead)) ms)"
        "mset ms = mset follow + mset (drop n lead)"
        "sorted follow \<and> sorted (drop n lead) \<longrightarrow> sorted ms"
        unfolding app by blast
      have len_ms: "length ms = length follow + (length lead - n)"
        using arg_cong [OF ms(2), of size] by simp
      have "go_append (go_append (arr, k) (take n lead)) ms = go_append (arr, k) (take n lead @ ms)"
        using "1.prems"(2) n_le len_ms by (intro go_append_twice) simp
      with eq ms(1) have res: "mergeloop (arr, k) lead follow =
          Inr (go_append (arr, k) (take n lead @ ms))" by simp
      have "mset (take n lead) + mset (drop n lead) = mset lead"
        by (simp only: mset_append [symmetric] append_take_drop_id)
      then have m: "mset (take n lead @ ms) = mset lead + mset follow"
        using ms(2) by simp
      have s: "sorted (take n lead @ ms)" if sl: "sorted lead" and sf: "sorted follow"
      proof -
        have sms: "sorted ms" using ms(3) sl sf by (simp add: sorted_wrt_drop)
        have "x \<le> y" if x: "x \<in> set (take n lead)" and y: "y \<in> set ms" for x y
        proof -
          from y have "y \<in> set follow \<or> y \<in> set (drop n lead)"
            using ms(2) by (metis mset_append set_mset_mset Un_iff set_append)
          then show ?thesis
          proof
            assume "y \<in> set follow"
            then have "f0 \<le> y" using sf by (auto simp: follow)
            with prefix [OF sl x] show ?thesis by simp
          next
            assume "y \<in> set (drop n lead)"
            with x sl show ?thesis
              by (metis append_take_drop_id sorted_append)
          qed
        qed
        with sms sl show ?thesis
          by (auto simp: sorted_append sorted_wrt_take)
      qed
      from res m s show ?thesis by blast
    qed
  qed
qed

lemma mergepgids_result:
  assumes "length a + length b \<le> length dst"
  shows "\<exists>ms. mergepgids dst a b = Inr (ms @ drop (length a + length b) dst) \<and>
           mset ms = mset a + mset b \<and> (sorted a \<and> sorted b \<longrightarrow> sorted ms)"
proof -
  consider "a = []" | "a \<noteq> []" "b = []" | "a \<noteq> []" "b \<noteq> []" by blast
  then show ?thesis
  proof cases
    case 1
    with assms have "mergepgids dst a b = Inr (b @ drop (length a + length b) dst)"
      by (simp add: mergepgids_def go_copy_def min_def)
    with 1 show ?thesis by auto
  next
    case 2
    with assms have "mergepgids dst a b = Inr (a @ drop (length a + length b) dst)"
      by (simp add: mergepgids_def go_copy_def min_def)
    with 2 show ?thesis by auto
  next
    case 3
    define lead where "lead = (if b ! 0 < a ! 0 then b else a)"
    define follow where "follow = (if b ! 0 < a ! 0 then a else b)"
    have lf: "follow \<noteq> []" "0 + length lead + length follow \<le> length dst"
      "mset lead + mset follow = mset a + mset b"
      "sorted a \<and> sorted b \<longrightarrow> sorted lead \<and> sorted follow"
      "length lead + length follow = length a + length b"
      using 3 assms by (auto simp: lead_def follow_def)
    from mergeloop_result [OF lf(1,2)] obtain ms where ms:
      "mergeloop (dst, 0) lead follow = Inr (go_append (dst, 0) ms)"
      "mset ms = mset lead + mset follow"
      "sorted lead \<and> sorted follow \<longrightarrow> sorted ms"
      by blast
    have "length ms = length a + length b"
      using arg_cong [OF ms(2), of size] lf(5) by simp
    then have "fst (go_append (dst, 0) ms) = ms @ drop (length a + length b) dst"
      by (simp add: go_append_def)
    moreover have "mergepgids dst a b =
        (case mergeloop (dst, 0) lead follow of Inl p \<Rightarrow> Inl p | Inr m \<Rightarrow> Inr (fst m))"
      using 3 assms by (simp add: mergepgids_def lead_def follow_def)
    ultimately have "mergepgids dst a b = Inr (ms @ drop (length a + length b) dst)"
      using ms(1) by simp
    with ms(2,3) lf(3,4) show ?thesis by auto
  qed
qed

text \<open>
  Claim C1. For sorted \<open>a\<close> and \<open>b\<close>, \<^verbatim>\<open>a.merge(b)\<close> returns a sorted list whose multiset
  of elements is the multiset union of those of \<open>a\<close> and \<open>b\<close> (duplicates are kept);
  merging with an empty list returns the other list.
\<close>

theorem merge_sorted_union:
  "(sorted a \<and> sorted b \<longrightarrow>
      (\<exists>c. merge a b = Inr c \<and> sorted c \<and> mset c = mset a + mset b)) \<and>
   merge a [] = Inr a \<and> merge [] b = Inr b"
proof (intro conjI impI)
  assume s: "sorted a \<and> sorted b"
  show "\<exists>c. merge a b = Inr c \<and> sorted c \<and> mset c = mset a + mset b"
  proof (cases "a = [] \<or> b = []")
    case True
    with s show ?thesis by (auto simp: merge_def)
  next
    case False
    from mergepgids_result [of a b "replicate (length a + length b) 0"]
    obtain ms where "mergepgids (replicate (length a + length b) 0) a b = Inr ms"
      "mset ms = mset a + mset b" "sorted a \<and> sorted b \<longrightarrow> sorted ms"
      by auto
    with False s show ?thesis by (simp add: merge_def)
  qed
next
  show "merge a [] = Inr a" by (simp add: merge_def)
  show "merge [] b = Inr b" by (simp add: merge_def)
qed

theorem merge_sorted_union_witness:
  "sorted [1, 3, 5 :: pgid] \<and> sorted [2, 3, 8 :: pgid] \<and>
   merge [1, 3, 5] [2, 3, 8] = Inr [1, 2, 3, 3, 5, 8] \<and>
   sorted [1, 2, 3, 3, 5, 8 :: pgid] \<and>
   mset [1, 2, 3, 3, 5, 8 :: pgid] = mset [1, 3, 5] + mset [2, 3, 8]"
proof -
  have run: "merge [1, 3, 5] [2, 3, 8] = Inr [1, 2, 3, 3, 5, 8]"
    by code_simp
  have inputs: "sorted [1, 3, 5 :: pgid] \<and> sorted [2, 3, 8 :: pgid]"
    by simp
  from merge_sorted_union [of "[1, 3, 5]" "[2, 3, 8]"] inputs
  obtain c where "merge [1, 3, 5] [2, 3, 8] = Inr c" "sorted c"
    "mset c = mset [1, 3, 5 :: pgid] + mset [2, 3, 8]"
    by blast
  with run inputs show ?thesis by simp
qed

text \<open>
  Claim C4. \<^verbatim>\<open>mergepgids(dst, a, b)\<close> panics with its bad-length error when \<^verbatim>\<open>dst\<close>
  is shorter than \<open>a\<close> and \<open>b\<close> together. When \<^verbatim>\<open>dst\<close> is at least that long there is
  no panic at all: the call returns, \<^verbatim>\<open>dst\<close> keeps its length and its first
  \<open>len(a) + len(b)\<close> elements are the whole union.
\<close>

theorem mergepgids_bad_len:
  "(length dst < length a + length b \<longrightarrow>
      mergepgids dst a b = Inl (BadLen (length dst) (length a) (length b))) \<and>
   (length a + length b \<le> length dst \<longrightarrow>
      (\<exists>r. mergepgids dst a b = Inr r \<and> length r = length dst \<and>
           mset (take (length a + length b) r) = mset a + mset b))"
proof (intro conjI impI)
  assume "length dst < length a + length b"
  then show "mergepgids dst a b = Inl (BadLen (length dst) (length a) (length b))"
    by (simp add: mergepgids_def)
next
  assume le: "length a + length b \<le> length dst"
  from mergepgids_result [OF le] obtain ms where ms:
    "mergepgids dst a b = Inr (ms @ drop (length a + length b) dst)"
    "mset ms = mset a + mset b"
    by blast
  have "length ms = length a + length b"
    using arg_cong [OF ms(2), of size] by simp
  with ms le show "\<exists>r. mergepgids dst a b = Inr r \<and> length r = length dst \<and>
      mset (take (length a + length b) r) = mset a + mset b"
    by simp
qed

theorem mergepgids_bad_len_witness:
  "mergepgids [0, 0, 0, 0, 0] [1, 3, 5] [2, 3, 8] = Inl (BadLen 5 3 3) \<and>
   mergepgids [9, 9, 9, 9, 9, 9, 9, 9] [1, 3, 5] [2, 3, 8] = Inr [1, 2, 3, 3, 5, 8, 9, 9]"
proof -
  have run: "mergepgids [9, 9, 9, 9, 9, 9, 9, 9] [1, 3, 5] [2, 3, 8] = Inr [1, 2, 3, 3, 5, 8, 9, 9]"
    by code_simp
  from mergepgids_bad_len [of "[0, 0, 0, 0, 0]" "[1, 3, 5]" "[2, 3, 8]"]
  have "mergepgids [0, 0, 0, 0, 0] [1, 3, 5] [2, 3, 8] = Inl (BadLen 5 3 3)"
    by simp
  moreover from mergepgids_bad_len [of "[9, 9, 9, 9, 9, 9, 9, 9]" "[1, 3, 5]" "[2, 3, 8]"]
  have "\<exists>r. mergepgids [9, 9, 9, 9, 9, 9, 9, 9] [1, 3, 5] [2, 3, 8] = Inr r"
    by auto
  ultimately show ?thesis using run by simp
qed

section \<open>Properties of bolt\_unix.go\<close>

subsection \<open>flock\<close>

lemma EWOULDBLOCK_nonzero: "EWOULDBLOCK \<noteq> 0"
  by (simp add: EWOULDBLOCK_def)

lemma flock_loop_blocked:
  "attempt i = EWOULDBLOCK \<Longrightarrow>
   flock_loop attempt since timeout retry i =
     (if timeout \<noteq> 0 \<and> timeout - retry <s since i then Some (Some ErrTimeout, i)
      else flock_loop attempt since timeout retry (Suc i))"
  by (subst flock_loop.simps) (simp add: errnoErr_def EWOULDBLOCK_nonzero)

lemma flock_loop_skip:
  "(\<And>j. j < n \<Longrightarrow> attempt (i + j) = EWOULDBLOCK \<and>
            \<not> (timeout \<noteq> 0 \<and> timeout - retry <s since (i + j))) \<Longrightarrow>
   flock_loop attempt since timeout retry i = flock_loop attempt since timeout retry (i + n)"
proof (induction n arbitrary: i)
  case 0
  show ?case by simp
next
  case (Suc n)
  have here: "attempt i = EWOULDBLOCK" "\<not> (timeout \<noteq> 0 \<and> timeout - retry <s since i)"
    using Suc.prems [of 0] by simp_all
  have rest: "flock_loop attempt since timeout retry (Suc i) =
      flock_loop attempt since timeout retry (Suc i + n)"
  proof (rule Suc.IH)
    fix j assume "j < n"
    then show "attempt (Suc i + j) = EWOULDBLOCK \<and>
        \<not> (timeout \<noteq> 0 \<and> timeout - retry <s since (Suc i + j))"
      using Suc.prems [of "Suc j"] by simp
  qed
  have "flock_loop attempt since timeout retry i =
      flock_loop attempt since timeout retry (Suc i)"
    using here by (subst flock_loop.simps) (auto simp: errnoErr_def EWOULDBLOCK_nonzero)
  with rest show ?case by simp
qed

lemma sint_sub_no_wrap:
  fixes a b :: "64 word"
  assumes "- (2 ^ 63) \<le> sint a - sint b" "sint a - sint b < 2 ^ 63"
  shows "sint (a - b) = sint a - sint b"
  using assms by (simp add: sint_word_ariths signed_take_bit_int_eq_self)

lemma timed_out_iff:
  fixes timeout retry elapsed :: "64 word"
  assumes "- (2 ^ 63) \<le> sint timeout - sint retry" "sint timeout - sint retry < 2 ^ 63"
  shows "timeout - retry <s elapsed \<longleftrightarrow> sint timeout - sint elapsed < sint retry"
  using sint_sub_no_wrap [OF assms] by (auto simp: word_sless_alt)

text \<open>A positive timeout and a positive retry interval never wrap around.\<close>

lemma positive_timeout_no_wrap:
  fixes timeout retry :: duration
  assumes "0 < sint timeout" and "0 < sint retry"
  shows "- (2 ^ 63) \<le> sint timeout - sint retry \<and> sint timeout - sint retry < 2 ^ 63"
proof -
  have "sint timeout < 2 ^ 63" "sint retry < 2 ^ 63"
    using sint_lt [of timeout] sint_lt [of retry] by simp_all
  with assms show ?thesis by simp
qed

text \<open>A call that returns from its \<open>i\<close>-th attempt on has slept \<open>i\<close> times at least.\<close>

lemma flock_loop_sleeps:
  assumes "flock_loop attempt since timeout retry i = Some y"
  shows "i \<le> snd y"
proof (rule flock_loop.raw_induct [where P = "\<lambda>_ _ _ _ i y. i \<le> snd y", OF _ assms])
  fix f :: "(nat \<Rightarrow> errno) \<Rightarrow> (nat \<Rightarrow> duration) \<Rightarrow> duration \<Rightarrow> duration \<Rightarrow> nat
      \<Rightarrow> (error option \<times> nat) option"
    and attempt since and timeout retry :: duration and i :: nat and y :: "error option \<times> nat"
  assume IH: "\<And>a s t r j z. f a s t r j = Some z \<Longrightarrow> j \<le> snd z"
  assume eq: "(let err = errnoErr (attempt i) in
      if err = None then Some (None, i)
      else if err \<noteq> Some (Errno EWOULDBLOCK) then Some (err, i)
      else if timeout \<noteq> 0 \<and> timeout - retry <s since i then Some (Some ErrTimeout, i)
      else f attempt since timeout retry (Suc i)) = Some y"
  show "i \<le> snd y"
  proof (cases "errnoErr (attempt i) = Some (Errno EWOULDBLOCK) \<and>
      \<not> (timeout \<noteq> 0 \<and> timeout - retry <s since i)")
    case True
    with eq have "f attempt since timeout retry (Suc i) = Some y"
      by (simp add: Let_def)
    then have "Suc i \<le> snd y" by (rule IH)
    then show ?thesis by simp
  next
    case False
    with eq show ?thesis
      by (auto simp: Let_def split: if_splits)
  qed
qed

text \<open>
  Where \<open>timeout - retry\<close> does not wrap around in the signed 64-bit arithmetic of
  \<^verbatim>\<open>time.Duration\<close>, the loop does what its comment says ("If we timed out then return an
  error"). Let the timeout be non-zero and every attempt fail with \<^verbatim>\<open>EWOULDBLOCK\<close>. The
  elapsed time is checked after each failed attempt, before the sleep. At the first check
  \<open>i\<close> where the remaining budget \<open>timeout - elapsed\<close> is smaller than one retry interval
  the call returns \<^verbatim>\<open>ErrTimeout\<close>; it has slept \<open>i\<close> times, each time after a check that left
  a whole retry interval at least.
\<close>

lemma flock_timeout_no_wrap:
  assumes "timeout \<noteq> 0"
    and "- (2 ^ 63) \<le> sint timeout - sint retry" and "sint timeout - sint retry < 2 ^ 63"
    and "\<forall>j\<le>i. sys_flock k j (fd db) (flock_flag exclusive) = EWOULDBLOCK"
    and "\<forall>j<i. sint retry \<le> sint timeout - sint (time_since k j)"
    and "sint timeout - sint (time_since k i) < sint retry"
  shows "flock k retry db exclusive timeout = Some (Some ErrTimeout, i)"
proof -
  let ?a = "\<lambda>j. sys_flock k j (fd db) (flock_flag exclusive)"
  have skip: "flock_loop ?a (time_since k) timeout retry 0 =
      flock_loop ?a (time_since k) timeout retry (0 + i)"
  proof (rule flock_loop_skip)
    fix j assume "j < i"
    with assms(4,5) have "?a (0 + j) = EWOULDBLOCK"
      and "\<not> sint timeout - sint (time_since k (0 + j)) < sint retry"
      by (simp_all add: not_less)
    then show "?a (0 + j) = EWOULDBLOCK \<and>
        \<not> (timeout \<noteq> 0 \<and> timeout - retry <s time_since k (0 + j))"
      by (simp add: timed_out_iff [OF assms(2,3)])
  qed
  have "?a i = EWOULDBLOCK"
    using assms(4) by simp
  moreover have "timeout - retry <s time_since k i"
    using assms(6) by (simp add: timed_out_iff [OF assms(2,3)])
  ultimately have "flock_loop ?a (time_since k) timeout retry i = Some (Some ErrTimeout, i)"
    using assms(1) by (simp add: flock_loop_blocked)
  with skip show ?thesis
    by (simp add: flock_def)
qed

text \<open>Every positive timeout is such a timeout, whatever the positive retry interval.\<close>

lemma flock_timeout_positive:
  assumes "0 < sint timeout" and "0 < sint retry"
    and "\<forall>j\<le>i. sys_flock k j (fd db) (flock_flag exclusive) = EWOULDBLOCK"
    and "\<forall>j<i. sint retry \<le> sint timeout - sint (time_since k j)"
    and "sint timeout - sint (time_since k i) < sint retry"
  shows "flock k retry db exclusive timeout = Some (Some ErrTimeout, i)"
proof -
  have "timeout \<noteq> 0"
    using assms(1) by auto
  moreover have "- (2 ^ 63) \<le> sint timeout - sint retry" "sint timeout - sint retry < 2 ^ 63"
    using positive_timeout_no_wrap [OF assms(1,2)] by simp_all
  ultimately show ?thesis
    using assms(3-5) by (rule flock_timeout_no_wrap)
qed

text \<open>
  Two runs against a lock that is never released, with a retry interval of 50 ms. With a
  timeout of 120 ms the call sleeps twice and times out at the third check. With a
  timeout of -1 ns, a negative one, it times out at the first check.
\<close>

lemma flock_timeout_no_wrap_run:
  "flock kernel_busy 50000000 db_closed True 120000000 = Some (Some ErrTimeout, 2)"
proof -
  have budget: "\<forall>j<2. sint (50000000 :: duration)
      \<le> sint (120000000 :: duration) - sint (time_since kernel_busy j)"
  proof (intro allI impI)
    fix j :: nat assume "j < 2"
    then have "j = 0 \<or> j = 1" by auto
    then show "sint (50000000 :: duration)
        \<le> sint (120000000 :: duration) - sint (time_since kernel_busy j)"
      by (auto simp: kernel_busy_def)
  qed
  show ?thesis
    by (rule flock_timeout_no_wrap [of 120000000 50000000 2 kernel_busy db_closed True])
      (use budget in \<open>simp_all add: kernel_busy_def\<close>)
qed

lemma flock_timeout_minus_one:
  "flock kernel_busy 50000000 db_closed True (- 1) = Some (Some ErrTimeout, 0)"
  by (rule flock_timeout_no_wrap [of "- 1" 50000000 0 kernel_busy db_closed True])
    (simp_all add: kernel_busy_def)

text \<open>
  Claim C2. A call with a non-zero timeout whose attempts all fail with \<^verbatim>\<open>EWOULDBLOCK\<close>
  is to return \<^verbatim>\<open>ErrTimeout\<close> as soon as the remaining budget \<open>timeout - elapsed\<close> is
  smaller than one retry interval, instead of sleeping. The code misses this for a
  timeout below the least \<^verbatim>\<open>time.Duration\<close> plus the retry interval. For the least
  duration itself, which is not zero, \<open>timeout - retry\<close> wraps around to a large positive
  duration: at the first check, with no time elapsed, the remaining budget is far below
  the retry interval of 50 ms, and the call does not return \<^verbatim>\<open>ErrTimeout\<close> there but
  sleeps.
\<close>

theorem flock_timeout_overflow:
  "(0x8000000000000000 :: duration) \<noteq> 0 \<and>
   sys_flock kernel_busy 0 (fd db_closed) (flock_flag True) = EWOULDBLOCK \<and>
   sint (0x8000000000000000 :: duration) - sint (time_since kernel_busy 0)
     < sint (50000000 :: duration) \<and>
   flock kernel_busy 50000000 db_closed True 0x8000000000000000 \<noteq> Some (Some ErrTimeout, 0)"
proof -
  let ?a = "\<lambda>j. sys_flock kernel_busy j (fd db_closed) (flock_flag True)"
  let ?t = "0x8000000000000000 :: duration"
  have "flock_loop ?a (time_since kernel_busy) ?t 50000000 0 =
      flock_loop ?a (time_since kernel_busy) ?t 50000000 (Suc 0)"
    by (subst flock_loop.simps)
      (simp add: kernel_busy_def errnoErr_def EWOULDBLOCK_def word_sless_alt)
  moreover have "flock_loop ?a (time_since kernel_busy) ?t 50000000 (Suc 0)
      \<noteq> Some (Some ErrTimeout, 0)"
    using flock_loop_sleeps [of ?a "time_since kernel_busy" ?t 50000000 "Suc 0" "(Some ErrTimeout, 0)"]
    by auto
  ultimately show ?thesis
    by (simp add: flock_def kernel_busy_def)
qed

text \<open>
  Claim C9. When an attempt of \<^verbatim>\<open>flock\<close> fails with an error of the operating system
  other than \<^verbatim>\<open>EWOULDBLOCK\<close>, the call returns that error from this very attempt: the
  \<open>i\<close>-th attempt (reached after \<open>i\<close> attempts that would block and did not time out)
  returns it after the \<open>i\<close> sleeps that came before, with no further sleep or attempt.
\<close>

theorem flock_os_error_immediate:
  assumes "\<forall>j<i. sys_flock k j (fd db) (flock_flag exclusive) = EWOULDBLOCK \<and>
             \<not> (timeout \<noteq> 0 \<and> timeout - retry <s time_since k j)"
    and "sys_flock k i (fd db) (flock_flag exclusive) = e" and "e \<noteq> 0" and "e \<noteq> EWOULDBLOCK"
  shows "flock k retry db exclusive timeout = Some (Some (Errno e), i)"
proof -
  let ?a = "\<lambda>j. sys_flock k j (fd db) (flock_flag exclusive)"
  have "flock_loop ?a (time_since k) timeout retry 0 =
      flock_loop ?a (time_since k) timeout retry (0 + i)"
    by (rule flock_loop_skip) (use assms(1) in simp)
  moreover have "flock_loop ?a (time_since k) timeout retry i = Some (Some (Errno e), i)"
    using assms(2-4) by (subst flock_loop.simps) (simp add: errnoErr_def)
  ultimately show ?thesis
    by (simp add: flock_def)
qed

theorem flock_os_error_immediate_witness:
  "flock kernel_badfd 50000000 db_closed False 0 = Some (Some (Errno 9), 2)"
  by (rule flock_os_error_immediate [of 2 kernel_badfd db_closed False 0 50000000 9])
    (simp_all add: kernel_badfd_def EWOULDBLOCK_def)

subsection \<open>mmap and munmap\<close>

text \<open>
  The invariant of the handle: it holds for a handle that was never mapped, and
  \<^verbatim>\<open>mmap\<close> and \<^verbatim>\<open>munmap\<close> keep it.
\<close>

lemma db_inv_zero: "db_inv \<lparr>fd = f, MmapFlags = m, dataref = None, data = None, datasz = 0\<rparr>"
  by (simp add: db_inv_def)

lemma db_inv_munmap: "db_inv db \<Longrightarrow> db_inv (snd (munmap k db))"
  by (simp add: db_inv_def munmap_def split: option.splits)

lemma db_inv_mmap: "db_inv db \<Longrightarrow> mmap k db sz = Inr (err, db') \<Longrightarrow> db_inv db'"
  by (auto simp: db_inv_def mmap_def mmap_save_def split: sum.splits option.splits if_splits)

lemma syscall_Mmap_Len: "syscall_Mmap k f off sz p fl = Inr b \<Longrightarrow> 0 < Len b \<and> int (Len b) = sz"
  by (auto simp: syscall_Mmap_def split: if_splits sum.splits)

text \<open>
  Claim C7. When \<^verbatim>\<open>syscall.Mmap\<close> succeeds, \<^verbatim>\<open>mmap\<close> ignores the failure
  \<^verbatim>\<open>ENOSYS\<close> of \<^verbatim>\<open>madvise\<close> and succeeds, saving the mapping in the handle; any
  other failure of \<^verbatim>\<open>madvise\<close> makes \<^verbatim>\<open>mmap\<close> return an error and leave the handle as
  it was.
\<close>

theorem mmap_madvise_errors:
  "syscall_Mmap k (fd db) 0 sz PROT_READ (MAP_SHARED OR MmapFlags db) = Inr b \<Longrightarrow>
     (sys_madvise k (Data b) (Len b) MADV_RANDOM = ENOSYS \<longrightarrow>
        mmap k db sz = Inr (None, db\<lparr>dataref := Some b, data := Some (Data b), datasz := sz\<rparr>)) \<and>
     (sys_madvise k (Data b) (Len b) MADV_RANDOM = e \<and> e \<noteq> 0 \<and> e \<noteq> ENOSYS \<longrightarrow>
        mmap k db sz = Inr (Some (Errorf ''madvise: %s'' (Errno e)), db))"
  using syscall_Mmap_Len [of k "fd db" 0 sz PROT_READ "MAP_SHARED OR MmapFlags db" b]
  by (simp add: mmap_def madvise_def mmap_save_def ENOSYS_def)

theorem mmap_madvise_errors_witness:
  "mmap kernel_busy db_closed 4096 = Inr (None, db_mapped) \<and>
   mmap kernel_badfd db_closed 4096 = Inr (Some (Errorf ''madvise: %s'' (Errno 22)), db_closed)"
  using mmap_madvise_errors [of kernel_busy db_closed 4096 "\<lparr>Data = 4096, Len = 4096, Cap = 4096\<rparr>" ENOSYS]
    mmap_madvise_errors [of kernel_badfd db_closed 4096 "\<lparr>Data = 4096, Len = 4096, Cap = 4096\<rparr>" 22]
  by (simp add: syscall_Mmap_def kernel_busy_def kernel_badfd_def db_closed_def db_mapped_def ENOSYS_def)

text \<open>
  Claim C6. \<^verbatim>\<open>munmap\<close> on a handle with nothing mapped returns \<^verbatim>\<open>nil\<close> and leaves the
  handle as it is. After a \<^verbatim>\<open>munmap\<close> that returned \<^verbatim>\<open>nil\<close>, on a handle in a state that
  \<^verbatim>\<open>mmap\<close> and \<^verbatim>\<open>munmap\<close> leave behind (\<open>db_inv\<close>), the handle has no buffer, no data
  pointer and size 0, and a second \<^verbatim>\<open>munmap\<close> returns \<^verbatim>\<open>nil\<close> again and changes
  nothing.
\<close>

theorem munmap_noop_idempotent:
  "(dataref db = None \<longrightarrow> munmap k db = (None, db)) \<and>
   (db_inv db \<and> munmap k db = (None, db') \<longrightarrow>
      unmapped db' \<and> munmap k' db' = (None, db'))"
  by (auto simp: munmap_def db_inv_def unmapped_def split: option.splits if_splits)

theorem munmap_noop_idempotent_witness:
  "munmap kernel_busy db_closed = (None, db_closed) \<and>
   db_inv db_mapped \<and> munmap kernel_busy db_mapped = (None, db_closed) \<and>
   unmapped db_closed \<and> munmap kernel_badfd db_closed = (None, db_closed)"
  using munmap_noop_idempotent [of db_closed kernel_busy db_closed kernel_badfd]
    munmap_noop_idempotent [of db_mapped kernel_busy db_closed kernel_badfd]
  by (simp add: db_closed_def db_mapped_def db_inv_def munmap_def kernel_busy_def)

text \<open>
  Claim C10. \<^verbatim>\<open>munmap\<close> on a handle with a mapping clears the buffer, the data pointer
  and the size whatever \<^verbatim>\<open>syscall.Munmap\<close> returns, and returns that result: also when
  the system call fails the handle is left unmapped, and the next \<^verbatim>\<open>munmap\<close> returns
  \<^verbatim>\<open>nil\<close> and changes nothing.
\<close>

theorem munmap_clears_on_failure:
  "dataref db = Some b \<Longrightarrow>
     munmap k db = (sys_Munmap k b, db\<lparr>dataref := None, data := None, datasz := 0\<rparr>) \<and>
     unmapped (snd (munmap k db)) \<and>
     munmap k' (snd (munmap k db)) = (None, snd (munmap k db))"
  by (simp add: munmap_def unmapped_def)

theorem munmap_clears_on_failure_witness:
  "dataref db_mapped = Some \<lparr>Data = 4096, Len = 4096, Cap = 4096\<rparr> \<and>
   munmap kernel_badfd db_mapped = (Some (Errno 22), db_closed) \<and>
   unmapped db_closed \<and>
   munmap kernel_busy db_closed = (None, db_closed)"
  using munmap_clears_on_failure [of db_mapped "\<lparr>Data = 4096, Len = 4096, Cap = 4096\<rparr>"
      kernel_badfd kernel_busy]
  by (simp add: db_closed_def db_mapped_def kernel_badfd_def munmap_def unmapped_def)

end
